theory Spec2Isabelle
  imports Main "HOL-Library.Word"
begin

section \<open>Data model of rollupvalidator/nodeProcessing.go\<close>

text \<open>
  Fixed-size Go types are words: \<open>common.Hash\<close> is \<open>[32]byte\<close>, \<open>common.Address\<close> is
  \<open>[20]byte\<close>, \<open>uint64\<close> and (on the 64-bit targets the validator runs on) \<open>uint\<close> are
  64-bit. The zero value \<open>common.Hash{}\<close> is the word \<open>0\<close>. A Go slice is a list, and the
  \<open>nil\<close> slice is the empty list. \<open>value.Value\<close> is an interface of another package; the
  functions here never look inside a value, so it is the type variable \<open>'v\<close>.
\<close>

type_synonym hash = "256 word"
type_synonym address = "160 word"
type_synonym uint64 = "64 word"
type_synonym byte = "8 word"
type_synonym error = string

text \<open>
  Modelled from the spec: \<open>evm.Log\<close> (package arb-validator-core/evm) is not among the
  sources. Section 4.3 of the specification uses a log's address and its ordered topics.
\<close>

record evmLog =
  Address :: address
  Topics :: "hash list"
  Data :: "byte list"

text \<open>
  \<open>logsInfo\<close> and \<open>logResponse\<close> are declared in another file of the package; their fields
  are the ones of the struct literals at lines 62-66 and 193-197 of the source. The fields
  of \<open>logResponse\<close> carry the prefix \<open>Resp\<close>, since a record field name is global.
\<close>

record logsInfo =
  Logs :: "evmLog list"
  TxIndex :: uint64
  TxHash :: hash

record logResponse =
  RespLog :: evmLog
  RespTxIndex :: uint64
  RespTxHash :: hash

record 'v nodeInfo =
  EVMLogs :: "logsInfo list"
  EVMTransactionHashes :: "hash list"
  AVMLogs :: "'v list"
  AVMMessages :: "'v list"
  AVMLogsAccHashes :: "string list"
  AVMLogsValHashes :: "string list"
  NodeHash :: hash
  NodeHeight :: uint64
  L1TxHash :: hash

text \<open>\<open>newNodeInfo\<close> returns \<open>&nodeInfo{}\<close>: every field has its zero value.\<close>

definition newNodeInfo :: "'v nodeInfo" where
  "newNodeInfo =
     \<lparr>EVMLogs = [], EVMTransactionHashes = [], AVMLogs = [], AVMMessages = [],
      AVMLogsAccHashes = [], AVMLogsValHashes = [],
      NodeHash = 0, NodeHeight = 0, L1TxHash = 0\<rparr>"

text \<open>
  Modelled from the spec: \<open>structures.Node\<close>, \<open>valprotocol.ChildType\<close> and the execution
  assertion are not among the sources. Section 6 gives the node's contract: \<open>hash()\<close>,
  \<open>depth()\<close>, \<open>link_type()\<close> ranging over \<open>enum{Valid, Other...}\<close>, \<open>assertion_tx_hash()\<close>
  and \<open>assertion()\<close>, an ordered sequence of outgoing messages and one of raw logs, which
  is read only when the link type is valid.
\<close>

datatype ChildType = ValidChildType | OtherChildType nat

record 'v ExecutionAssertion =
  OutMsgs :: "'v list"
  AssertionLogs :: "'v list"

record 'v Node =
  Hash :: hash
  Depth :: uint64
  AssertionTxHash :: hash
  LinkType :: ChildType
  Assertion :: "'v ExecutionAssertion"

text \<open>
  Modelled from the spec: \<open>evm.Result\<close> and \<open>evm.EthMsg\<close> are not among the sources.
  Section 6: a decoded execution exposes its logs and a message view with a transaction
  hash, and is polymorphic over the variants success and revert, the latter carrying the
  revert payload (\<open>ReturnVal\<close>).
\<close>

datatype EthMsg = EthMsg (MsgTxHash: hash)

datatype evmResult =
    Success EthMsg "evmLog list"
  | Revert EthMsg "evmLog list" "byte list"

fun GetEthMsg :: "evmResult \<Rightarrow> EthMsg" where
  "GetEthMsg (Success m ls) = m"
| "GetEthMsg (Revert m ls rv) = m"

fun GetLogs :: "evmResult \<Rightarrow> evmLog list" where
  "GetLogs (Success m ls) = ls"
| "GetLogs (Revert m ls rv) = ls"

text \<open>
  The two \<open>log.Printf\<close> calls of \<open>processNode\<close> write to the process log. The model
  returns what was printed as a list of diagnostics, oldest first.
\<close>

datatype diagnostic =
    InvalidEvmResult error
  | RevertOccurred "byte list"

section \<open>processNode\<close>

text \<open>
  The first loop of \<open>processNode\<close> (lines 171-182). The state is the node info under
  construction and the running accumulator \<open>acc\<close>. \<open>vHash\<close> is the method \<open>Hash\<close> of
  \<open>value.Value\<close>, \<open>SoliditySHA3\<close> is \<open>hashing.SoliditySHA3\<close> applied to two \<open>Bytes32\<close>
  arguments, and \<open>hexEncode\<close> is \<open>hexutil.Encode\<close> on the 32 bytes of a hash: three
  functions of other packages, taken as parameters.
\<close>

fun hashLoop ::
  "('v \<Rightarrow> hash) \<Rightarrow> (hash \<Rightarrow> hash \<Rightarrow> hash) \<Rightarrow> (hash \<Rightarrow> string) \<Rightarrow>
   'v list \<Rightarrow> 'v nodeInfo \<times> hash \<Rightarrow> 'v nodeInfo \<times> hash" where
  "hashLoop vHash SoliditySHA3 hexEncode [] (ni, acc) = (ni, acc)"
| "hashLoop vHash SoliditySHA3 hexEncode (logsVal # rest) (ni, acc) =
     (let logsValHash = vHash logsVal;
          ni1 = ni\<lparr>AVMLogsValHashes := AVMLogsValHashes ni @ [hexEncode logsValHash]\<rparr>;
          acc1 = SoliditySHA3 acc logsValHash;
          ni2 = ni1\<lparr>AVMLogsAccHashes := AVMLogsAccHashes ni1 @ [hexEncode acc1]\<rparr>
      in hashLoop vHash SoliditySHA3 hexEncode rest (ni2, acc1))"

text \<open>
  The second loop (lines 186-203). \<open>i\<close> is the index of \<open>range\<close>, a Go \<open>int\<close>;
  \<open>uint64(i)\<close> is \<open>of_nat i\<close>. \<open>ProcessLog\<close> is \<open>evm.ProcessLog\<close>, which returns a result or
  an error. The state is the node info and the diagnostics printed so far.
\<close>

fun decodeLoop ::
  "('v \<Rightarrow> address \<Rightarrow> error + evmResult) \<Rightarrow> address \<Rightarrow> nat \<Rightarrow> 'v list \<Rightarrow>
   'v nodeInfo \<times> diagnostic list \<Rightarrow> 'v nodeInfo \<times> diagnostic list" where
  "decodeLoop ProcessLog chain i [] (ni, out) = (ni, out)"
| "decodeLoop ProcessLog chain i (logVal # rest) (ni, out) =
     (case ProcessLog logVal chain of
        Inl err \<Rightarrow>
          decodeLoop ProcessLog chain (i + 1) rest (ni, out @ [InvalidEvmResult err])
      | Inr evmVal \<Rightarrow>
          (let msg = GetEthMsg evmVal;
               ni1 = ni\<lparr>EVMLogs := EVMLogs ni @
                        [\<lparr>Logs = GetLogs evmVal, TxIndex = of_nat i,
                          TxHash = MsgTxHash msg\<rparr>]\<rparr>;
               out1 = (case evmVal of
                         Revert m ls ReturnVal \<Rightarrow> out @ [RevertOccurred ReturnVal]
                       | Success m ls \<Rightarrow> out);
               ni2 = ni1\<lparr>EVMTransactionHashes :=
                          EVMTransactionHashes ni1 @ [MsgTxHash msg]\<rparr>
           in decodeLoop ProcessLog chain (i + 1) rest (ni2, out1)))"

definition processNode ::
  "('v \<Rightarrow> hash) \<Rightarrow> (hash \<Rightarrow> hash \<Rightarrow> hash) \<Rightarrow> (hash \<Rightarrow> string) \<Rightarrow>
   ('v \<Rightarrow> address \<Rightarrow> error + evmResult) \<Rightarrow>
   'v Node \<Rightarrow> address \<Rightarrow> 'v nodeInfo \<times> diagnostic list" where
  "processNode vHash SoliditySHA3 hexEncode ProcessLog node chain =
     (let ni0 = newNodeInfo\<lparr>NodeHash := Hash node, NodeHeight := Depth node\<rparr>;
          txHash = AssertionTxHash node;
          ni1 = ni0\<lparr>L1TxHash := txHash\<rparr>
      in if LinkType node \<noteq> ValidChildType then (ni1, [])
         else
           (let logs = AssertionLogs (Assertion node);
                ni2 = ni1\<lparr>AVMMessages := OutMsgs (Assertion node),
                          AVMLogs := AssertionLogs (Assertion node),
                          AVMLogsValHashes := [], AVMLogsAccHashes := []\<rparr>;
                (ni3, acc) = hashLoop vHash SoliditySHA3 hexEncode logs (ni2, 0);
                ni4 = ni3\<lparr>EVMTransactionHashes := []\<rparr>
            in decodeLoop ProcessLog chain 0 logs (ni4, [])))"

section \<open>FindLogs\<close>

text \<open>
  Modelled from the spec: the method \<open>MatchesQuery\<close> of \<open>evm.Log\<close> is not among the
  sources. Section 4.3: a log matches if its address is in \<open>addresses\<close> (empty
  \<open>addresses\<close> matches all) and, for each position k of \<open>topics\<close>, the log's k-th topic
  is in \<open>topics[k]\<close> (an empty set at position k matches any topic, and a log with fewer
  topics than \<open>topics\<close> has positions does not match the positions beyond its topic
  count).
\<close>

fun topicsMatch :: "hash list \<Rightarrow> hash list list \<Rightarrow> bool" where
  "topicsMatch ts [] = True"
| "topicsMatch [] (topicGroup # groups) = False"
| "topicsMatch (t # ts) (topicGroup # groups) =
     ((topicGroup = [] \<or> t \<in> set topicGroup) \<and> topicsMatch ts groups)"

definition MatchesQuery :: "evmLog \<Rightarrow> address list \<Rightarrow> hash list list \<Rightarrow> bool" where
  "MatchesQuery l addresses topics \<longleftrightarrow>
     (addresses = [] \<or> Address l \<in> set addresses) \<and> topicsMatch (Topics l) topics"

text \<open>The inner loop of \<open>FindLogs\<close> (lines 60-68), over the logs of the group \<open>txLogs\<close>.\<close>

fun findInGroup ::
  "address list \<Rightarrow> hash list list \<Rightarrow> logsInfo \<Rightarrow> evmLog list \<Rightarrow>
   logResponse list \<Rightarrow> logResponse list" where
  "findInGroup addresses topics txLogs [] logs = logs"
| "findInGroup addresses topics txLogs (evmLog # rest) logs =
     (if MatchesQuery evmLog addresses topics
      then findInGroup addresses topics txLogs rest
             (logs @ [\<lparr>RespLog = evmLog, RespTxIndex = TxIndex txLogs,
                       RespTxHash = TxHash txLogs\<rparr>])
      else findInGroup addresses topics txLogs rest logs)"

text \<open>The outer loop (lines 59-69), over the groups.\<close>

fun findLoop ::
  "address list \<Rightarrow> hash list list \<Rightarrow> logsInfo list \<Rightarrow>
   logResponse list \<Rightarrow> logResponse list" where
  "findLoop addresses topics [] logs = logs"
| "findLoop addresses topics (txLogs # rest) logs =
     findLoop addresses topics rest
       (findInGroup addresses topics txLogs (Logs txLogs) logs)"

definition FindLogs ::
  "'v nodeInfo \<Rightarrow> address list \<Rightarrow> hash list list \<Rightarrow> logResponse list" where
  "FindLogs ni addresses topics = findLoop addresses topics (EVMLogs ni) []"

section \<open>calculateBloomFilter\<close>

text \<open>
  \<open>evm.FullLog\<close> has the fields of the struct literal at lines 78-84, here with the prefix
  \<open>Full\<close>. \<open>ethLog\<close> is go-ethereum's \<open>types.Log\<close>: the log's own fields, the block number
  and block hash, the transaction index and hash, and the log index \<open>Index\<close>, which line
  85 of the source sets.
\<close>

record FullLog =
  FullLog :: evmLog
  FullTxIndex :: uint64
  FullTxHash :: hash
  FullNodeHeight :: uint64
  FullNodeHash :: hash

record ethLog =
  EthAddress :: address
  EthTopics :: "hash list"
  EthData :: "byte list"
  BlockNumber :: uint64
  EthTxHash :: hash
  EthTxIndex :: uint64
  BlockHash :: hash
  Index :: uint64

text \<open>
  Modelled from the spec: the method \<open>ToEVMLog\<close> of \<open>evm.FullLog\<close> is not among the
  sources. Section 4.4: it converts the tagged log to the externally shaped log
  representation; the node's height and hash become the block number and block hash.
\<close>

definition ToEVMLog :: "FullLog \<Rightarrow> ethLog" where
  "ToEVMLog l =
     \<lparr>EthAddress = Address (FullLog l), EthTopics = Topics (FullLog l),
      EthData = Data (FullLog l), BlockNumber = FullNodeHeight l,
      EthTxHash = FullTxHash l, EthTxIndex = FullTxIndex l,
      BlockHash = FullNodeHash l, Index = 0\<rparr>"

text \<open>
  The inner loop (lines 77-89): \<open>i\<close> is the index of the outer \<open>range\<close> over
  \<open>ni.EVMLogs\<close>, the state is the slice \<open>ethLogs\<close> and the counter \<open>logIndex\<close>.
\<close>

fun bloomGroup ::
  "'v nodeInfo \<Rightarrow> nat \<Rightarrow> logsInfo \<Rightarrow> evmLog list \<Rightarrow>
   ethLog list \<times> uint64 \<Rightarrow> ethLog list \<times> uint64" where
  "bloomGroup ni i logsInfo [] (ethLogs, logIndex) = (ethLogs, logIndex)"
| "bloomGroup ni i logsInfo (ethLog # rest) (ethLogs, logIndex) =
     (let l = ToEVMLog \<lparr>FullLog = ethLog, FullTxIndex = of_nat i,
                         FullTxHash = TxHash logsInfo,
                         FullNodeHeight = NodeHeight ni, FullNodeHash = NodeHash ni\<rparr>;
          l1 = l\<lparr>Index := logIndex\<rparr>
      in bloomGroup ni i logsInfo rest (ethLogs @ [l1], logIndex + 1))"

fun bloomLoop ::
  "'v nodeInfo \<Rightarrow> nat \<Rightarrow> logsInfo list \<Rightarrow>
   ethLog list \<times> uint64 \<Rightarrow> ethLog list \<times> uint64" where
  "bloomLoop ni i [] st = st"
| "bloomLoop ni i (logsInfo # rest) st =
     bloomLoop ni (i + 1) rest (bloomGroup ni i logsInfo (Logs logsInfo) st)"

text \<open>The slice \<open>ethLogs\<close> when the loops of \<open>calculateBloomFilter\<close> are done.\<close>

definition bloomLogs :: "'v nodeInfo \<Rightarrow> ethLog list" where
  "bloomLogs ni = fst (bloomLoop ni 0 (EVMLogs ni) ([], 0))"

text \<open>
  \<open>types.LogsBloom\<close> is go-ethereum's filter over a list of logs, a parameter here;
  \<open>types.BytesToBloom(b.Bytes())\<close> gives the 2048 bits of \<open>b\<close> back.
\<close>

definition calculateBloomFilter ::
  "(ethLog list \<Rightarrow> 2048 word) \<Rightarrow> 'v nodeInfo \<Rightarrow> 2048 word" where
  "calculateBloomFilter LogsBloom ni = LogsBloom (bloomLogs ni)"

section \<open>Equals\<close>

text \<open>
  The four slice comparisons (lines 94-140) have one shape: unequal lengths give
  \<open>false\<close>, otherwise the loop returns \<open>false\<close> at the first index whose elements differ
  and \<open>true\<close> when there is none. \<open>eqLoop\<close> is that loop; it runs on slices of one
  length only, so its second equation is the end of both. \<open>vEq\<close> is \<open>value.Eq\<close>, of
  another package.
\<close>

fun eqLoop :: "('a \<Rightarrow> 'a \<Rightarrow> bool) \<Rightarrow> 'a list \<Rightarrow> 'a list \<Rightarrow> bool" where
  "eqLoop eq (t # ts) (u # us) = (if \<not> eq t u then False else eqLoop eq ts us)"
| "eqLoop eq ts us = True"

definition valueSlicesEqual :: "('v \<Rightarrow> 'v \<Rightarrow> bool) \<Rightarrow> 'v list \<Rightarrow> 'v list \<Rightarrow> bool" where
  "valueSlicesEqual vEq a b =
     (if length a \<noteq> length b then False else eqLoop vEq a b)"

definition stringSlicesEqual :: "string list \<Rightarrow> string list \<Rightarrow> bool" where
  "stringSlicesEqual a b =
     (if length a \<noteq> length b then False else eqLoop (\<lambda>t u. t = u) a b)"

text \<open>
  Modelled from the spec: the method \<open>Equals\<close> of \<open>logsInfo\<close> is not among the sources.
  Section 4.6: two groups are equal when they have the same \<open>tx_index\<close>, the same
  \<open>tx_hash\<close> and element-wise equal log lists.
\<close>

definition logsInfoEquals :: "logsInfo \<Rightarrow> logsInfo \<Rightarrow> bool" where
  "logsInfoEquals a b \<longleftrightarrow>
     TxIndex a = TxIndex b \<and> TxHash a = TxHash b \<and>
     length (Logs a) = length (Logs b) \<and> eqLoop (\<lambda>t u. t = u) (Logs a) (Logs b)"

definition logSlicesEqual :: "logsInfo list \<Rightarrow> logsInfo list \<Rightarrow> bool" where
  "logSlicesEqual a b =
     (if length a \<noteq> length b then False else eqLoop logsInfoEquals a b)"

definition hashSlicesEqual :: "hash list \<Rightarrow> hash list \<Rightarrow> bool" where
  "hashSlicesEqual a b =
     (if length a \<noteq> length b then False else eqLoop (\<lambda>t u. t = u) a b)"

definition Equals :: "('v \<Rightarrow> 'v \<Rightarrow> bool) \<Rightarrow> 'v nodeInfo \<Rightarrow> 'v nodeInfo \<Rightarrow> bool" where
  "Equals vEq ni o' \<longleftrightarrow>
     logSlicesEqual (EVMLogs ni) (EVMLogs o') \<and>
     hashSlicesEqual (EVMTransactionHashes ni) (EVMTransactionHashes o') \<and>
     valueSlicesEqual vEq (AVMLogs ni) (AVMLogs o') \<and>
     valueSlicesEqual vEq (AVMMessages ni) (AVMMessages o') \<and>
     stringSlicesEqual (AVMLogsAccHashes ni) (AVMLogsAccHashes o') \<and>
     stringSlicesEqual (AVMLogsValHashes ni) (AVMLogsValHashes o') \<and>
     NodeHash ni = NodeHash o' \<and>
     NodeHeight ni = NodeHeight o'"

section \<open>getTxInfo\<close>

text \<open>
  \<open>evm.TxInfo\<close> has the fields of the struct literal at lines 223-234; the node's height
  and hash carry the prefix \<open>Tx\<close>. Indexing a slice out of range and slicing it beyond its
  length are run-time panics in Go: the model returns them as errors, in the order in
  which the source evaluates the three expressions that can panic (lines 219, 221, 229).
  \<open>txIndex\<close> is a \<open>uint64\<close>, so \<open>txIndex+1\<close> and \<open>txIndex-1\<close> wrap around.
\<close>

record 'v TxInfo =
  Found :: bool
  TxNodeHeight :: uint64
  TxNodeHash :: hash
  TransactionHash :: hash
  TransactionIndex :: uint64
  RawVal :: 'v
  LogsPreHash :: string
  LogsPostHash :: string
  LogsValHashes :: "string list"
  OnChainTxHash :: hash

datatype panic = IndexOutOfRange | SliceBoundsOutOfRange

definition getTxInfo ::
  "(hash \<Rightarrow> string) \<Rightarrow> hash \<Rightarrow> 'v nodeInfo \<Rightarrow> uint64 \<Rightarrow> panic + 'v TxInfo" where
  "getTxInfo hexEncode txHash nodeInfo txIndex =
     (let zero = (0 :: hash);
          logsPostHash =
            (if length (AVMLogsAccHashes nodeInfo) > 0
             then AVMLogsAccHashes nodeInfo ! (length (AVMLogsAccHashes nodeInfo) - 1)
             else hexEncode zero)
      in if txIndex > 0 \<and> \<not> unat (txIndex - 1) < length (AVMLogsAccHashes nodeInfo)
         then Inl IndexOutOfRange
         else
           (let logsPreHash =
                  (if txIndex > 0 then AVMLogsAccHashes nodeInfo ! unat (txIndex - 1)
                   else hexEncode zero)
            in if unat (txIndex + 1) > length (AVMLogsValHashes nodeInfo)
               then Inl SliceBoundsOutOfRange
               else
                 (let logsValHashes = drop (unat (txIndex + 1)) (AVMLogsValHashes nodeInfo)
                  in if \<not> unat txIndex < length (AVMLogs nodeInfo)
                     then Inl IndexOutOfRange
                     else Inr \<lparr>Found = True,
                               TxNodeHeight = NodeHeight nodeInfo,
                               TxNodeHash = NodeHash nodeInfo,
                               TransactionHash = txHash,
                               TransactionIndex = txIndex,
                               RawVal = AVMLogs nodeInfo ! unat txIndex,
                               LogsPreHash = logsPreHash,
                               LogsPostHash = logsPostHash,
                               LogsValHashes = logsValHashes,
                               OnChainTxHash = L1TxHash nodeInfo\<rparr>)))"

section \<open>The specification's vocabulary\<close>

text \<open>\<open>derive\<close> of section 4.2 is the node info that \<open>processNode\<close> returns.\<close>

abbreviation derive ::
  "('v \<Rightarrow> hash) \<Rightarrow> (hash \<Rightarrow> hash \<Rightarrow> hash) \<Rightarrow> (hash \<Rightarrow> string) \<Rightarrow>
   ('v \<Rightarrow> address \<Rightarrow> error + evmResult) \<Rightarrow> 'v Node \<Rightarrow> address \<Rightarrow> 'v nodeInfo" where
  "derive vHash H hexEncode ProcessLog node chain \<equiv>
     fst (processNode vHash H hexEncode ProcessLog node chain)"

text \<open>
  The accumulator of section 3, in the specification's words: the digest at index \<open>i\<close> is
  \<open>H\<close> of the digest at index \<open>i - 1\<close> and the hash of the \<open>i\<close>-th raw log, and the
  digest before index 0 is the zero hash.
\<close>

fun logAccAt ::
  "('v \<Rightarrow> hash) \<Rightarrow> (hash \<Rightarrow> hash \<Rightarrow> hash) \<Rightarrow> 'v list \<Rightarrow> nat \<Rightarrow> hash" where
  "logAccAt vHash H logs 0 = H 0 (vHash (logs ! 0))"
| "logAccAt vHash H logs (Suc i) = H (logAccAt vHash H logs i) (vHash (logs ! Suc i))"

text \<open>
  The length of a Go slice is an \<open>int\<close>: on a 64-bit target no slice is longer than
  \<open>maxInt\<close>, so that \<open>uint64(i)\<close> of an index \<open>i\<close> of a slice loses nothing.
\<close>

definition maxInt :: nat where
  "maxInt = 2 ^ 63 - 1"

section \<open>Auxiliary functions for the proofs\<close>

text \<open>The digests that the first loop computes from the accumulator \<open>acc\<close>, in order.\<close>

fun accList ::
  "('v \<Rightarrow> hash) \<Rightarrow> (hash \<Rightarrow> hash \<Rightarrow> hash) \<Rightarrow> hash \<Rightarrow> 'v list \<Rightarrow> hash list" where
  "accList vHash H acc [] = []"
| "accList vHash H acc (l # ls) = H acc (vHash l) # accList vHash H (H acc (vHash l)) ls"

text \<open>What one iteration of the second loop appends and prints at index \<open>i\<close>.\<close>

definition emitted ::
  "('v \<Rightarrow> address \<Rightarrow> error + evmResult) \<Rightarrow> address \<Rightarrow> nat \<Rightarrow> 'v \<Rightarrow> logsInfo list" where
  "emitted ProcessLog chain i logVal =
     (case ProcessLog logVal chain of
        Inl err \<Rightarrow> []
      | Inr evmVal \<Rightarrow>
          [\<lparr>Logs = GetLogs evmVal, TxIndex = of_nat i,
            TxHash = MsgTxHash (GetEthMsg evmVal)\<rparr>])"

definition printed ::
  "('v \<Rightarrow> address \<Rightarrow> error + evmResult) \<Rightarrow> address \<Rightarrow> 'v \<Rightarrow> diagnostic list" where
  "printed ProcessLog chain logVal =
     (case ProcessLog logVal chain of
        Inl err \<Rightarrow> [InvalidEvmResult err]
      | Inr (Revert m ls ReturnVal) \<Rightarrow> [RevertOccurred ReturnVal]
      | Inr (Success m ls) \<Rightarrow> [])"

fun decoded ::
  "('v \<Rightarrow> address \<Rightarrow> error + evmResult) \<Rightarrow> address \<Rightarrow> nat \<Rightarrow> 'v list \<Rightarrow> logsInfo list" where
  "decoded ProcessLog chain i [] = []"
| "decoded ProcessLog chain i (l # ls) =
     emitted ProcessLog chain i l @ decoded ProcessLog chain (Suc i) ls"

text \<open>
  The log that \<open>calculateBloomFilter\<close> appends for the log \<open>l\<close> of the group \<open>logsInfo\<close>
  at position \<open>i\<close> of \<open>EVMLogs\<close>, with the log index \<open>k\<close>; then the logs appended for a
  group and for a list of groups.
\<close>

definition tagged :: "'v nodeInfo \<Rightarrow> nat \<Rightarrow> logsInfo \<Rightarrow> evmLog \<Rightarrow> uint64 \<Rightarrow> ethLog" where
  "tagged ni i logsInfo l k =
     \<lparr>EthAddress = Address l, EthTopics = Topics l, EthData = Data l,
      BlockNumber = NodeHeight ni, EthTxHash = TxHash logsInfo, EthTxIndex = of_nat i,
      BlockHash = NodeHash ni, Index = k\<rparr>"

fun tagGroup ::
  "'v nodeInfo \<Rightarrow> nat \<Rightarrow> logsInfo \<Rightarrow> evmLog list \<Rightarrow> uint64 \<Rightarrow> ethLog list" where
  "tagGroup ni i logsInfo [] k = []"
| "tagGroup ni i logsInfo (l # ls) k =
     tagged ni i logsInfo l k # tagGroup ni i logsInfo ls (k + 1)"

fun tagGroups :: "'v nodeInfo \<Rightarrow> nat \<Rightarrow> logsInfo list \<Rightarrow> uint64 \<Rightarrow> ethLog list" where
  "tagGroups ni i [] k = []"
| "tagGroups ni i (g # gs) k =
     tagGroup ni i g (Logs g) k @ tagGroups ni (Suc i) gs (k + of_nat (length (Logs g)))"

section \<open>A concrete node\<close>

text \<open>
  Small stand-ins for the functions of other packages, to run the model: values are
  natural numbers, the value hash is the number itself, the two-argument hash is a
  polynomial and the encoder prints the last byte. The decoder rejects the value 0,
  reports a revert for the other even values and a success with one log for odd ones.
\<close>

definition demoValueHash :: "nat \<Rightarrow> hash" where
  "demoValueHash v = of_nat v"

definition demoSHA3 :: "hash \<Rightarrow> hash \<Rightarrow> hash" where
  "demoSHA3 a b = 3 * a + b + 1"

definition demoHex :: "hash \<Rightarrow> string" where
  "demoHex h =
     ''0x'' @ [''0123456789abcdef'' ! (unat h div 16 mod 16),
               ''0123456789abcdef'' ! (unat h mod 16)]"

definition demoLog :: evmLog where
  "demoLog = \<lparr>Address = 7, Topics = [5, 6], Data = []\<rparr>"

definition demoProcessLog :: "nat \<Rightarrow> address \<Rightarrow> error + evmResult" where
  "demoProcessLog v chain =
     (if v = 0 then Inl ''invalid''
      else if even v then Inr (Revert (EthMsg (of_nat v)) [] [1])
      else Inr (Success (EthMsg (of_nat v)) [demoLog]))"

text \<open>A valid node with three raw logs, the first of which does not decode.\<close>

definition demoNode :: "nat Node" where
  "demoNode =
     \<lparr>Hash = 11, Depth = 4, AssertionTxHash = 12, LinkType = ValidChildType,
      Assertion = \<lparr>OutMsgs = [9], AssertionLogs = [0, 1, 2]\<rparr>\<rparr>"

definition demoInfo :: "nat nodeInfo" where
  "demoInfo = derive demoValueHash demoSHA3 demoHex demoProcessLog demoNode 0"

text \<open>The same node on a branch that is not valid.\<close>

definition demoOtherNode :: "nat Node" where
  "demoOtherNode = demoNode\<lparr>LinkType := OtherChildType 0\<rparr>"

text \<open>
  The same valid node, created by another layer-1 transaction: only the assertion
  transaction hash differs.
\<close>

definition demoNode2 :: "nat Node" where
  "demoNode2 = demoNode\<lparr>AssertionTxHash := 13\<rparr>"

definition demoInfo2 :: "nat nodeInfo" where
  "demoInfo2 = derive demoValueHash demoSHA3 demoHex demoProcessLog demoNode2 0"

text \<open>
  A node info outside the invariant of section 3: one raw log and its value hash, and
  no accumulator hash.
\<close>

definition demoBareInfo :: "nat nodeInfo" where
  "demoBareInfo = newNodeInfo\<lparr>AVMLogs := [5], AVMLogsValHashes := [''0x05'']\<rparr>"

section \<open>The two loops of processNode\<close>

lemma hashLoop_eq:
  "hashLoop vHash H hexEncode logs (ni, acc) =
     (ni\<lparr>AVMLogsValHashes := AVMLogsValHashes ni @ map (\<lambda>l. hexEncode (vHash l)) logs,
         AVMLogsAccHashes := AVMLogsAccHashes ni @ map hexEncode (accList vHash H acc logs)\<rparr>,
      last (acc # accList vHash H acc logs))"
  by (induction logs arbitrary: ni acc) (simp_all add: Let_def)

lemma length_accList [simp]: "length (accList vHash H acc logs) = length logs"
  by (induction logs arbitrary: acc) simp_all

lemma accList_Nil_iff: "accList vHash H acc xs = [] \<longleftrightarrow> xs = []"
  by (cases xs) simp_all

lemma accList_snoc:
  "accList vHash H acc (xs @ [x]) =
     accList vHash H acc xs @ [H (last (acc # accList vHash H acc xs)) (vHash x)]"
  by (induction xs arbitrary: acc) simp_all

lemma logAccAt_prefix:
  "i < length xs \<Longrightarrow> logAccAt vHash H (xs @ ys) i = logAccAt vHash H xs i"
  by (induction i) (simp_all add: nth_append)

lemma logAccAt_rec:
  "logAccAt vHash H logs i =
     H (if i = 0 then 0 else logAccAt vHash H logs (i - 1)) (vHash (logs ! i))"
  by (cases i) simp_all

text \<open>The digests of the loop are the accumulator of the specification.\<close>

lemma accList_nth:
  "i < length logs \<Longrightarrow> accList vHash H 0 logs ! i = logAccAt vHash H logs i"
proof (induction logs arbitrary: i rule: rev_induct)
  case Nil
  then show ?case by simp
next
  case (snoc x xs)
  show ?case
  proof (cases "i < length xs")
    case True
    then show ?thesis
      using snoc.IH [of i] by (simp add: accList_snoc nth_append logAccAt_prefix)
  next
    case False
    with snoc.prems have i: "i = length xs" by simp
    show ?thesis
    proof (cases xs rule: rev_cases)
      case Nil
      then show ?thesis using i by (simp add: accList_snoc)
    next
      case (snoc ys y)
      then have k: "length xs = Suc (length ys)" by simp
      have ne: "accList vHash H 0 xs \<noteq> []"
        using snoc by (simp add: accList_Nil_iff)
      have "last (0 # accList vHash H 0 xs) = accList vHash H 0 xs ! length ys"
        using k ne by (simp add: last_conv_nth)
      also have "\<dots> = logAccAt vHash H xs (length ys)"
        using snoc.IH [of "length ys"] k by simp
      finally show ?thesis
        using i k by (simp add: accList_snoc nth_append logAccAt_prefix)
    qed
  qed
qed

lemma decodeLoop_eq:
  "decodeLoop ProcessLog chain i logs (ni, out) =
     (ni\<lparr>EVMLogs := EVMLogs ni @ decoded ProcessLog chain i logs,
         EVMTransactionHashes :=
           EVMTransactionHashes ni @ map TxHash (decoded ProcessLog chain i logs)\<rparr>,
      out @ concat (map (printed ProcessLog chain) logs))"
proof (induction logs arbitrary: i ni out)
  case Nil
  then show ?case by simp
next
  case (Cons l ls)
  show ?case
  proof (cases "ProcessLog l chain")
    case (Inl err)
    then show ?thesis
      by (simp add: Cons.IH emitted_def printed_def)
  next
    case (Inr evmVal)
    then show ?thesis
      by (cases evmVal) (simp_all add: Cons.IH emitted_def printed_def)
  qed
qed

lemma decoded_concat:
  "decoded ProcessLog chain i logs =
     concat (map (\<lambda>j. emitted ProcessLog chain (i + j) (logs ! j)) [0..<length logs])"
proof (induction logs arbitrary: i)
  case Nil
  then show ?case by simp
next
  case (Cons l ls)
  have "[0..<length (l # ls)] = 0 # map Suc [0..<length ls]"
    by (simp add: upt_conv_Cons map_Suc_upt del: upt_Suc)
  then show ?case
    by (simp add: Cons.IH comp_def del: upt_Suc)
qed

lemma map_TxHash_emitted:
  "map TxHash (emitted ProcessLog chain i l) =
     (case ProcessLog l chain of
        Inl err \<Rightarrow> []
      | Inr evmVal \<Rightarrow> [MsgTxHash (GetEthMsg evmVal)])"
  by (simp add: emitted_def split: sum.splits)

lemma length_emitted: "length (emitted ProcessLog chain i l) \<le> 1"
  by (simp add: emitted_def split: sum.splits)

lemma length_decoded: "length (decoded ProcessLog chain i logs) \<le> length logs"
proof (induction logs arbitrary: i)
  case Nil
  then show ?case by simp
next
  case (Cons l ls)
  from Cons.IH [of "Suc i"] length_emitted [of ProcessLog chain i l]
  show ?case by simp
qed

lemma emitted_cases:
  "g \<in> set (emitted ProcessLog chain i l) \<Longrightarrow>
   \<exists>evmVal. ProcessLog l chain = Inr evmVal \<and>
     g = \<lparr>Logs = GetLogs evmVal, TxIndex = of_nat i, TxHash = MsgTxHash (GetEthMsg evmVal)\<rparr>"
  by (cases "ProcessLog l chain") (simp_all add: emitted_def)

lemma decoded_member:
  assumes "g \<in> set (decoded ProcessLog chain i logs)"
  shows "\<exists>j evmVal. j < length logs \<and> ProcessLog (logs ! j) chain = Inr evmVal \<and>
     g = \<lparr>Logs = GetLogs evmVal, TxIndex = of_nat (i + j),
          TxHash = MsgTxHash (GetEthMsg evmVal)\<rparr>"
proof -
  from assms obtain j where j: "j < length logs"
      and g: "g \<in> set (emitted ProcessLog chain (i + j) (logs ! j))"
    by (auto simp: decoded_concat)
  from emitted_cases [OF g] j show ?thesis by blast
qed

lemma of_nat_less_uint64:
  assumes "a < b" and "b < 2 ^ 64"
  shows "(of_nat a :: uint64) < of_nat b"
  using assms by (simp add: word_less_nat_alt unat_of_nat take_bit_nat_eq_self)

lemma decoded_sorted:
  "i + length logs \<le> 2 ^ 64 \<Longrightarrow>
   sorted_wrt (<) (map TxIndex (decoded ProcessLog chain i logs))"
proof (induction logs arbitrary: i)
  case Nil
  then show ?case by simp
next
  case (Cons l ls)
  have tail: "sorted_wrt (<) (map TxIndex (decoded ProcessLog chain (Suc i) ls))"
    using Cons.prems by (intro Cons.IH) simp
  have later: "of_nat i < TxIndex g" if "g \<in> set (decoded ProcessLog chain (Suc i) ls)" for g
  proof -
    from decoded_member [OF that] obtain j where "j < length ls"
        and "TxIndex g = of_nat (Suc i + j)"
      by auto
    with Cons.prems show ?thesis
      by (simp add: of_nat_less_uint64 del: of_nat_Suc of_nat_add)
  qed
  show ?case
  proof (cases "ProcessLog l chain")
    case (Inl err)
    then show ?thesis using tail by (simp add: emitted_def)
  next
    case (Inr evmVal)
    then show ?thesis using tail later by (simp add: emitted_def)
  qed
qed

section \<open>What processNode returns\<close>

lemma processNode_valid:
  assumes "LinkType node = ValidChildType"
  shows "derive vHash H hexEncode ProcessLog node chain =
     \<lparr>EVMLogs = decoded ProcessLog chain 0 (AssertionLogs (Assertion node)),
      EVMTransactionHashes =
        map TxHash (decoded ProcessLog chain 0 (AssertionLogs (Assertion node))),
      AVMLogs = AssertionLogs (Assertion node),
      AVMMessages = OutMsgs (Assertion node),
      AVMLogsAccHashes =
        map hexEncode (accList vHash H 0 (AssertionLogs (Assertion node))),
      AVMLogsValHashes =
        map (\<lambda>l. hexEncode (vHash l)) (AssertionLogs (Assertion node)),
      NodeHash = Hash node, NodeHeight = Depth node,
      L1TxHash = AssertionTxHash node\<rparr>"
  using assms
  by (simp add: processNode_def newNodeInfo_def hashLoop_eq decodeLoop_eq Let_def)

text \<open>The diagnostics: one per raw log that does not decode, one per revert.\<close>

lemma processNode_valid_printed:
  assumes "LinkType node = ValidChildType"
  shows "snd (processNode vHash H hexEncode ProcessLog node chain) =
     concat (map (printed ProcessLog chain) (AssertionLogs (Assertion node)))"
  using assms
  by (simp add: processNode_def newNodeInfo_def hashLoop_eq decodeLoop_eq Let_def)

lemma processNode_other:
  assumes "LinkType node \<noteq> ValidChildType"
  shows "processNode vHash H hexEncode ProcessLog node chain =
     (\<lparr>EVMLogs = [], EVMTransactionHashes = [], AVMLogs = [], AVMMessages = [],
       AVMLogsAccHashes = [], AVMLogsValHashes = [],
       NodeHash = Hash node, NodeHeight = Depth node,
       L1TxHash = AssertionTxHash node\<rparr>, [])"
  using assms by (simp add: processNode_def newNodeInfo_def)

text \<open>The invariant of section 3 holds of every node info that \<open>processNode\<close> returns.\<close>

lemma processNode_invariant:
  "length (AVMLogsValHashes (derive vHash H hexEncode ProcessLog node chain)) =
     length (AVMLogs (derive vHash H hexEncode ProcessLog node chain)) \<and>
   length (AVMLogsAccHashes (derive vHash H hexEncode ProcessLog node chain)) =
     length (AVMLogs (derive vHash H hexEncode ProcessLog node chain)) \<and>
   length (EVMLogs (derive vHash H hexEncode ProcessLog node chain)) =
     length (EVMTransactionHashes (derive vHash H hexEncode ProcessLog node chain)) \<and>
   length (EVMLogs (derive vHash H hexEncode ProcessLog node chain)) \<le>
     length (AVMLogs (derive vHash H hexEncode ProcessLog node chain))"
proof (cases "LinkType node = ValidChildType")
  case True
  then show ?thesis by (simp add: processNode_valid length_decoded)
next
  case False
  then show ?thesis by (simp add: processNode_other)
qed

text \<open>The node info of the concrete node, computed.\<close>

lemma demoInfo_eq:
  "demoInfo =
     \<lparr>EVMLogs = [\<lparr>Logs = [demoLog], TxIndex = 1, TxHash = 1\<rparr>,
                 \<lparr>Logs = [], TxIndex = 2, TxHash = 2\<rparr>],
      EVMTransactionHashes = [1, 2],
      AVMLogs = [0, 1, 2], AVMMessages = [9],
      AVMLogsAccHashes = [''0x01'', ''0x05'', ''0x12''],
      AVMLogsValHashes = [''0x00'', ''0x01'', ''0x02''],
      NodeHash = 11, NodeHeight = 4, L1TxHash = 12\<rparr>"
  by (simp add: demoInfo_def processNode_def newNodeInfo_def demoNode_def Let_def
      demoProcessLog_def demoValueHash_def demoSHA3_def demoHex_def)

section \<open>Properties of processNode\<close>

text \<open>
  C1. For a node whose link type is valid, the node info that \<open>processNode\<close> returns
  holds the raw logs of the assertion, has as many value hashes and as many accumulator
  hashes as raw logs, and at every index \<open>i\<close> the value hash is the hex encoding of the
  hash of the \<open>i\<close>-th raw log and the accumulator hash is the hex encoding of the digest
  \<open>logAccAt\<close> at \<open>i\<close>, which is \<open>H\<close> of the digest at \<open>i - 1\<close> (the zero hash before index
  0) and the hash of the \<open>i\<close>-th raw log.
\<close>

theorem processNode_valid_hash_chain:
  assumes "LinkType node = ValidChildType"
  shows "AVMLogs (derive vHash H hexEncode ProcessLog node chain) =
           AssertionLogs (Assertion node) \<and>
         length (AVMLogsValHashes (derive vHash H hexEncode ProcessLog node chain)) =
           length (AVMLogs (derive vHash H hexEncode ProcessLog node chain)) \<and>
         length (AVMLogsAccHashes (derive vHash H hexEncode ProcessLog node chain)) =
           length (AVMLogs (derive vHash H hexEncode ProcessLog node chain)) \<and>
         (\<forall>i < length (AssertionLogs (Assertion node)).
            AVMLogsValHashes (derive vHash H hexEncode ProcessLog node chain) ! i =
              hexEncode (vHash (AssertionLogs (Assertion node) ! i)) \<and>
            AVMLogsAccHashes (derive vHash H hexEncode ProcessLog node chain) ! i =
              hexEncode (logAccAt vHash H (AssertionLogs (Assertion node)) i) \<and>
            logAccAt vHash H (AssertionLogs (Assertion node)) i =
              H (if i = 0 then 0
                 else logAccAt vHash H (AssertionLogs (Assertion node)) (i - 1))
                (vHash (AssertionLogs (Assertion node) ! i)))"
  using logAccAt_rec [of vHash H "AssertionLogs (Assertion node)"]
  by (simp add: processNode_valid [OF assms] accList_nth)

theorem processNode_valid_hash_chain_witness:
  "LinkType demoNode = ValidChildType \<and>
   AVMLogs demoInfo = [0, 1, 2] \<and>
   length (AVMLogsValHashes demoInfo) = 3 \<and>
   length (AVMLogsAccHashes demoInfo) = 3 \<and>
   AVMLogsValHashes demoInfo ! 2 = demoHex (demoValueHash 2) \<and>
   AVMLogsAccHashes demoInfo ! 0 = demoHex (demoSHA3 0 (demoValueHash 0)) \<and>
   AVMLogsAccHashes demoInfo ! 2 =
     demoHex (demoSHA3 (demoSHA3 (demoSHA3 0 (demoValueHash 0)) (demoValueHash 1))
                (demoValueHash 2))"
proof -
  have valid: "LinkType demoNode = ValidChildType"
    by (simp add: demoNode_def)
  have logs: "AssertionLogs (Assertion demoNode) = [0, 1, 2]"
    by (simp add: demoNode_def)
  note chain = processNode_valid_hash_chain
    [OF valid, of demoValueHash demoSHA3 demoHex demoProcessLog 0, folded demoInfo_def]
  from chain have shape: "AVMLogs demoInfo = [0, 1, 2] \<and>
      length (AVMLogsValHashes demoInfo) = 3 \<and> length (AVMLogsAccHashes demoInfo) = 3"
    by (simp add: logs)
  note at = chain [THEN conjunct2, THEN conjunct2, THEN conjunct2, rule_format]
  from at [of 0] have at0:
    "AVMLogsAccHashes demoInfo ! 0 = demoHex (demoSHA3 0 (demoValueHash 0))"
    by (simp add: logs)
  from at [of 2] have at2:
    "AVMLogsValHashes demoInfo ! 2 = demoHex (demoValueHash 2) \<and>
     AVMLogsAccHashes demoInfo ! 2 =
       demoHex (demoSHA3 (demoSHA3 (demoSHA3 0 (demoValueHash 0)) (demoValueHash 1))
                  (demoValueHash 2))"
    by (simp add: logs eval_nat_numeral)
  from valid shape at0 at2 show ?thesis by blast
qed

text \<open>
  C3. For a valid node, the groups of the node info are, index by index of the raw logs
  and in that order, nothing where \<open>ProcessLog\<close> returns an error and otherwise exactly
  one group, with the logs of the decoded result, the index \<open>i\<close> as \<open>TxIndex\<close> and the
  transaction hash of the result's message; the transaction hashes are, index by index,
  nothing for an error and that same transaction hash otherwise. A revert is a result
  like any other. \<open>processNode\<close> returns a node info in every case: its result type has
  no error.
\<close>

theorem processNode_decode_groups:
  assumes "LinkType node = ValidChildType"
  shows "EVMLogs (derive vHash H hexEncode ProcessLog node chain) =
           concat (map (\<lambda>i. case ProcessLog (AssertionLogs (Assertion node) ! i) chain of
                               Inl err \<Rightarrow> []
                             | Inr evmVal \<Rightarrow>
                                 [\<lparr>Logs = GetLogs evmVal, TxIndex = of_nat i,
                                   TxHash = MsgTxHash (GetEthMsg evmVal)\<rparr>])
                       [0..<length (AssertionLogs (Assertion node))]) \<and>
         EVMTransactionHashes (derive vHash H hexEncode ProcessLog node chain) =
           concat (map (\<lambda>i. case ProcessLog (AssertionLogs (Assertion node) ! i) chain of
                               Inl err \<Rightarrow> []
                             | Inr evmVal \<Rightarrow> [MsgTxHash (GetEthMsg evmVal)])
                       [0..<length (AssertionLogs (Assertion node))])"
  by (simp add: processNode_valid [OF assms] decoded_concat map_concat comp_def
        map_TxHash_emitted)
     (simp add: emitted_def)

theorem processNode_decode_groups_witness:
  "LinkType demoNode = ValidChildType \<and>
   EVMLogs demoInfo =
     [\<lparr>Logs = [demoLog], TxIndex = 1, TxHash = 1\<rparr>, \<lparr>Logs = [], TxIndex = 2, TxHash = 2\<rparr>] \<and>
   EVMTransactionHashes demoInfo = [1, 2]"
proof -
  have valid: "LinkType demoNode = ValidChildType"
    by (simp add: demoNode_def)
  have upt3: "[0..<3] = [0, 1, 2]"
    by (simp add: upt_rec)
  from processNode_decode_groups [OF valid, of demoValueHash demoSHA3 demoHex demoProcessLog 0]
  show ?thesis
    unfolding demoInfo_def
    by (simp add: demoNode_def demoProcessLog_def upt3)
qed

text \<open>
  C8. For a node whose link type is not valid, every log and message field of the node
  info is empty, and the node hash, the node height and the layer-1 transaction hash are
  the node's hash, depth and assertion transaction hash.
\<close>

theorem processNode_not_valid_empty:
  assumes "LinkType node \<noteq> ValidChildType"
  shows "AVMLogs (derive vHash H hexEncode ProcessLog node chain) = [] \<and>
         AVMMessages (derive vHash H hexEncode ProcessLog node chain) = [] \<and>
         AVMLogsValHashes (derive vHash H hexEncode ProcessLog node chain) = [] \<and>
         AVMLogsAccHashes (derive vHash H hexEncode ProcessLog node chain) = [] \<and>
         EVMLogs (derive vHash H hexEncode ProcessLog node chain) = [] \<and>
         EVMTransactionHashes (derive vHash H hexEncode ProcessLog node chain) = [] \<and>
         NodeHash (derive vHash H hexEncode ProcessLog node chain) = Hash node \<and>
         NodeHeight (derive vHash H hexEncode ProcessLog node chain) = Depth node \<and>
         L1TxHash (derive vHash H hexEncode ProcessLog node chain) = AssertionTxHash node"
  by (simp add: processNode_other [OF assms])

theorem processNode_not_valid_empty_witness:
  "LinkType demoOtherNode \<noteq> ValidChildType \<and>
   AssertionLogs (Assertion demoOtherNode) = [0, 1, 2] \<and>
   derive demoValueHash demoSHA3 demoHex demoProcessLog demoOtherNode 0 =
     \<lparr>EVMLogs = [], EVMTransactionHashes = [], AVMLogs = [], AVMMessages = [],
      AVMLogsAccHashes = [], AVMLogsValHashes = [],
      NodeHash = 11, NodeHeight = 4, L1TxHash = 12\<rparr>"
proof -
  have other: "LinkType demoOtherNode \<noteq> ValidChildType"
    by (simp add: demoOtherNode_def)
  from processNode_not_valid_empty
    [OF other, of demoValueHash demoSHA3 demoHex demoProcessLog 0]
  show ?thesis
    by (simp add: demoOtherNode_def demoNode_def nodeInfo.equality)
qed

text \<open>
  C10. In every node info that \<open>processNode\<close> returns, for a node whose assertion has
  at most \<open>maxInt\<close> raw logs (as every Go slice has), the \<open>TxIndex\<close> values of the groups
  are strictly increasing, hence pairwise distinct, and each group's \<open>TxIndex\<close> is an index
  of the raw logs at which \<open>ProcessLog\<close> returns the result the group was built from.
\<close>

theorem processNode_tx_index_increasing:
  assumes "length (AssertionLogs (Assertion node)) \<le> maxInt"
  shows "sorted_wrt (<)
           (map TxIndex (EVMLogs (derive vHash H hexEncode ProcessLog node chain))) \<and>
         distinct (map TxIndex (EVMLogs (derive vHash H hexEncode ProcessLog node chain))) \<and>
         (\<forall>g \<in> set (EVMLogs (derive vHash H hexEncode ProcessLog node chain)).
            unat (TxIndex g) < length (AssertionLogs (Assertion node)) \<and>
            (\<exists>evmVal.
               ProcessLog (AssertionLogs (Assertion node) ! unat (TxIndex g)) chain =
                 Inr evmVal \<and>
               Logs g = GetLogs evmVal \<and> TxHash g = MsgTxHash (GetEthMsg evmVal)))"
proof (cases "LinkType node = ValidChildType")
  case False
  then show ?thesis by (simp add: processNode_other)
next
  case True
  let ?logs = "AssertionLogs (Assertion node)"
  let ?gs = "decoded ProcessLog chain 0 ?logs"
  have bound: "length ?logs < 2 ^ 64"
    using assms by (simp add: maxInt_def)
  have s: "sorted_wrt (<) (map TxIndex ?gs)"
    using bound by (intro decoded_sorted) simp
  then have d: "distinct (map TxIndex ?gs)"
    by (simp add: strict_sorted_iff)
  have m: "unat (TxIndex g) < length ?logs \<and>
      (\<exists>evmVal. ProcessLog (?logs ! unat (TxIndex g)) chain = Inr evmVal \<and>
         Logs g = GetLogs evmVal \<and> TxHash g = MsgTxHash (GetEthMsg evmVal))"
    if "g \<in> set ?gs" for g
  proof -
    from decoded_member [OF that] obtain j evmVal where j: "j < length ?logs"
        and p: "ProcessLog (?logs ! j) chain = Inr evmVal"
        and g: "g = \<lparr>Logs = GetLogs evmVal, TxIndex = of_nat (0 + j),
                     TxHash = MsgTxHash (GetEthMsg evmVal)\<rparr>"
      by blast
    have "unat (TxIndex g) = j"
      using g j bound by (simp add: unat_of_nat take_bit_nat_eq_self)
    with j p g show ?thesis by simp
  qed
  show ?thesis
    using s d m by (simp add: processNode_valid [OF True])
qed

theorem processNode_tx_index_increasing_witness:
  "length (AssertionLogs (Assertion demoNode)) \<le> maxInt \<and>
   map TxIndex (EVMLogs demoInfo) = [1, 2] \<and>
   sorted_wrt (<) (map TxIndex (EVMLogs demoInfo)) \<and>
   distinct (map TxIndex (EVMLogs demoInfo))"
proof -
  have len: "length (AssertionLogs (Assertion demoNode)) \<le> maxInt"
    by (simp add: demoNode_def maxInt_def)
  have ix: "map TxIndex (EVMLogs demoInfo) = [1, 2]"
    by (simp add: demoInfo_eq)
  from processNode_tx_index_increasing
    [OF len, of demoValueHash demoSHA3 demoHex demoProcessLog 0]
  have "sorted_wrt (<) (map TxIndex (EVMLogs demoInfo)) \<and>
        distinct (map TxIndex (EVMLogs demoInfo))"
    unfolding demoInfo_def by blast
  with len ix show ?thesis by blast
qed

section \<open>Properties of getTxInfo\<close>

text \<open>
  When the three slices have one length, as section 3 requires and \<open>processNode\<close>
  ensures, and the index is below it, \<open>getTxInfo\<close> does not panic.
\<close>

lemma getTxInfo_returns:
  assumes acc: "length (AVMLogsAccHashes ni) = length (AVMLogs ni)"
    and val: "length (AVMLogsValHashes ni) = length (AVMLogs ni)"
    and idx: "unat txIndex < length (AVMLogs ni)"
  shows "getTxInfo hexEncode txHash ni txIndex =
     Inr \<lparr>Found = True, TxNodeHeight = NodeHeight ni, TxNodeHash = NodeHash ni,
          TransactionHash = txHash, TransactionIndex = txIndex,
          RawVal = AVMLogs ni ! unat txIndex,
          LogsPreHash = (if txIndex = 0 then hexEncode 0
                         else AVMLogsAccHashes ni ! (unat txIndex - 1)),
          LogsPostHash = (if AVMLogsAccHashes ni \<noteq> [] then last (AVMLogsAccHashes ni)
                          else hexEncode 0),
          LogsValHashes = drop (unat (txIndex + 1)) (AVMLogsValHashes ni),
          OnChainTxHash = L1TxHash ni\<rparr>"
proof -
  have pre: "unat (txIndex - 1) = unat txIndex - 1" if "txIndex \<noteq> 0"
    using that by (simp add: unat_minus_one)
  have suc: "unat (txIndex + 1) \<le> unat txIndex + 1"
  proof -
    have "unat (txIndex + 1) = (unat txIndex + 1) mod 2 ^ 64"
      by (simp add: unat_word_ariths)
    then show ?thesis
      by (simp add: mod_less_eq_dividend)
  qed
  have ne: "AVMLogs ni \<noteq> []" "AVMLogsAccHashes ni \<noteq> []"
    using acc idx by auto
  have lt: "unat txIndex - 1 < length (AVMLogsAccHashes ni)"
    using acc idx by simp
  show ?thesis
    using ne lt val idx pre suc
    by (simp add: getTxInfo_def Let_def last_conv_nth word_greater_zero_iff)
qed

text \<open>An index of a slice that is no longer than \<open>maxInt\<close> has a successor in \<open>uint64\<close>.\<close>

lemma unat_succ_index:
  assumes "unat (txIndex :: uint64) < n" and "n \<le> maxInt"
  shows "unat (txIndex + 1) = unat txIndex + 1"
proof -
  have "unat txIndex + 1 < 2 ^ 64"
    using assms by (simp add: maxInt_def)
  then show ?thesis
    by (simp add: unat_word_ariths)
qed

text \<open>
  Whatever the node info, a result of \<open>getTxInfo\<close> carries these two hashes: the one
  after the whole node does not depend on \<open>txIndex\<close>.
\<close>

lemma getTxInfo_result_hashes:
  assumes "getTxInfo hexEncode txHash ni txIndex = Inr ti"
  shows "LogsPostHash ti =
           (if AVMLogsAccHashes ni \<noteq> [] then last (AVMLogsAccHashes ni) else hexEncode 0) \<and>
         LogsPreHash ti =
           (if txIndex = 0 then hexEncode 0 else AVMLogsAccHashes ni ! unat (txIndex - 1))"
  using assms
  by (auto simp: getTxInfo_def Let_def last_conv_nth word_greater_zero_iff
      split: if_splits)

text \<open>
  C4. For every node info and every index below the number of its raw logs at which the
  two other slice expressions of \<open>getTxInfo\<close> are in range (the index is at most the
  number of accumulator hashes, and \<open>txIndex + 1\<close> at most the number of value hashes),
  \<open>getTxInfo\<close> returns a transaction info whose \<open>LogsPostHash\<close> is the last accumulator
  hash when there is one and the encoded zero hash otherwise, whatever the index, and
  whose \<open>LogsPreHash\<close> is the encoded zero hash at index 0 and the accumulator hash at
  \<open>txIndex - 1\<close> otherwise. The two range conditions follow from the invariant of section
  3; they also hold at index 0 of a node info with no accumulator hashes, where the
  result carries the encoded zero hash twice.
\<close>

theorem getTxInfo_pre_post_hash:
  assumes "unat txIndex < length (AVMLogs ni)"
    and "unat txIndex \<le> length (AVMLogsAccHashes ni)"
    and "unat (txIndex + 1) \<le> length (AVMLogsValHashes ni)"
  shows "\<exists>ti. getTxInfo hexEncode txHash ni txIndex = Inr ti \<and>
           LogsPostHash ti =
             (if AVMLogsAccHashes ni \<noteq> [] then last (AVMLogsAccHashes ni)
              else hexEncode 0) \<and>
           LogsPreHash ti =
             (if txIndex = 0 then hexEncode 0
              else AVMLogsAccHashes ni ! (unat txIndex - 1))"
proof -
  have pre: "unat (txIndex - 1) = unat txIndex - 1" if "txIndex \<noteq> 0"
    using that by (simp add: unat_minus_one)
  have pos: "0 < unat txIndex" if "txIndex \<noteq> 0"
    using that by (simp add: unat_gt_0)
  have lt: "unat txIndex - 1 < length (AVMLogsAccHashes ni)" if "txIndex \<noteq> 0"
    using pos [OF that] assms(2) by simp
  have ne: "AVMLogsAccHashes ni \<noteq> []" if "txIndex \<noteq> 0"
    using lt [OF that] by auto
  show ?thesis
    using assms(1,3) pre lt ne
    by (simp add: getTxInfo_def Let_def last_conv_nth word_greater_zero_iff)
qed

theorem getTxInfo_pre_post_hash_witness:
  "unat (2 :: uint64) < length (AVMLogs demoInfo) \<and>
   unat (2 :: uint64) \<le> length (AVMLogsAccHashes demoInfo) \<and>
   unat ((2 :: uint64) + 1) \<le> length (AVMLogsValHashes demoInfo) \<and>
   (\<exists>ti. getTxInfo demoHex 2 demoInfo 2 = Inr ti \<and>
      LogsPostHash ti = ''0x12'' \<and> LogsPreHash ti = ''0x05'') \<and>
   unat (0 :: uint64) < length (AVMLogs demoBareInfo) \<and>
   unat (0 :: uint64) \<le> length (AVMLogsAccHashes demoBareInfo) \<and>
   unat ((0 :: uint64) + 1) \<le> length (AVMLogsValHashes demoBareInfo) \<and>
   AVMLogsAccHashes demoBareInfo = [] \<and>
   (\<exists>ti. getTxInfo demoHex 5 demoBareInfo 0 = Inr ti \<and>
      LogsPostHash ti = demoHex 0 \<and> LogsPreHash ti = demoHex 0)"
proof -
  have idx: "unat (2 :: uint64) < length (AVMLogs demoInfo)"
    and acc: "unat (2 :: uint64) \<le> length (AVMLogsAccHashes demoInfo)"
    and val: "unat ((2 :: uint64) + 1) \<le> length (AVMLogsValHashes demoInfo)"
    by (simp_all add: demoInfo_eq)
  have idx0: "unat (0 :: uint64) < length (AVMLogs demoBareInfo)"
    and acc0: "unat (0 :: uint64) \<le> length (AVMLogsAccHashes demoBareInfo)"
    and val0: "unat ((0 :: uint64) + 1) \<le> length (AVMLogsValHashes demoBareInfo)"
    and none: "AVMLogsAccHashes demoBareInfo = []"
    by (simp_all add: demoBareInfo_def newNodeInfo_def)
  from getTxInfo_pre_post_hash [OF idx acc val, of demoHex 2]
  have full: "\<exists>ti. getTxInfo demoHex 2 demoInfo 2 = Inr ti \<and>
      LogsPostHash ti = ''0x12'' \<and> LogsPreHash ti = ''0x05''"
    by (simp add: demoInfo_eq)
  from getTxInfo_pre_post_hash [OF idx0 acc0 val0, of demoHex 5]
  have bare: "\<exists>ti. getTxInfo demoHex 5 demoBareInfo 0 = Inr ti \<and>
      LogsPostHash ti = demoHex 0 \<and> LogsPreHash ti = demoHex 0"
    by (simp add: none)
  from idx acc val full idx0 acc0 val0 none bare show ?thesis
    by blast
qed

text \<open>
  C6. For a node info whose accumulator hashes and value hashes are as many as its raw
  logs (the invariant of section 3), with at most \<open>maxInt\<close> raw logs, and an index below
  their number, \<open>LogsValHashes\<close> of the result is the value hashes from index
  \<open>txIndex + 1\<close> on, and is empty for the last index.
\<close>

theorem getTxInfo_val_hashes_after:
  assumes "length (AVMLogsAccHashes ni) = length (AVMLogs ni)"
    and "length (AVMLogsValHashes ni) = length (AVMLogs ni)"
    and "unat txIndex < length (AVMLogs ni)"
    and "length (AVMLogs ni) \<le> maxInt"
  shows "\<exists>ti. getTxInfo hexEncode txHash ni txIndex = Inr ti \<and>
           LogsValHashes ti = drop (unat txIndex + 1) (AVMLogsValHashes ni) \<and>
           (unat txIndex = length (AVMLogs ni) - 1 \<longrightarrow> LogsValHashes ti = [])"
  using assms(2,3)
  by (simp add: getTxInfo_returns [OF assms(1,2,3)] unat_succ_index [OF assms(3,4)])

theorem getTxInfo_val_hashes_after_witness:
  "length (AVMLogsAccHashes demoInfo) = length (AVMLogs demoInfo) \<and>
   length (AVMLogsValHashes demoInfo) = length (AVMLogs demoInfo) \<and>
   unat (1 :: uint64) < length (AVMLogs demoInfo) \<and>
   length (AVMLogs demoInfo) \<le> maxInt \<and>
   (\<exists>ti. getTxInfo demoHex 1 demoInfo 1 = Inr ti \<and> LogsValHashes ti = [''0x02''])"
proof -
  have acc: "length (AVMLogsAccHashes demoInfo) = length (AVMLogs demoInfo)"
    by (simp add: demoInfo_eq)
  have val: "length (AVMLogsValHashes demoInfo) = length (AVMLogs demoInfo)"
    by (simp add: demoInfo_eq)
  have idx: "unat (1 :: uint64) < length (AVMLogs demoInfo)"
    by (simp add: demoInfo_eq)
  have len: "length (AVMLogs demoInfo) \<le> maxInt"
    by (simp add: demoInfo_eq maxInt_def)
  from getTxInfo_val_hashes_after [OF acc val idx len, of demoHex 1]
  have "\<exists>ti. getTxInfo demoHex 1 demoInfo 1 = Inr ti \<and> LogsValHashes ti = [''0x02'']"
    by (simp add: demoInfo_eq)
  with acc val idx len show ?thesis by blast
qed

text \<open>
  C5. Section 3 of the specification says that \<open>LogsValHashes\<close> is the suffix of the
  value hashes that starts at index \<open>txIndex + 2\<close>. It is not: at index 1 of the concrete node info, which has three value
  hashes, \<open>getTxInfo\<close> returns the one value hash at index 2, and the suffix from index 3
  is empty.
\<close>

theorem getTxInfo_val_hashes_plus_two_counterexample:
  "map_sum id LogsValHashes (getTxInfo demoHex 1 demoInfo 1) = Inr [''0x02''] \<and>
   drop (unat (1 :: uint64) + 2) (AVMLogsValHashes demoInfo) = [] \<and>
   map_sum id LogsValHashes (getTxInfo demoHex 1 demoInfo 1) \<noteq>
     Inr (drop (unat (1 :: uint64) + 2) (AVMLogsValHashes demoInfo))"
  by (simp add: demoInfo_eq getTxInfo_def)

text \<open>
  C5, amended. For a node info with the invariant of section 3 and at most \<open>maxInt\<close> raw
  logs and an index below their number, \<open>LogsValHashes\<close> of the result is the suffix of
  the value hashes that starts at index \<open>txIndex + 1\<close>: it has
  \<open>length - (txIndex + 1)\<close> elements and its \<open>j\<close>-th element is the value hash at index
  \<open>txIndex + 1 + j\<close>.
\<close>

theorem getTxInfo_val_hashes_start:
  assumes "length (AVMLogsAccHashes ni) = length (AVMLogs ni)"
    and "length (AVMLogsValHashes ni) = length (AVMLogs ni)"
    and "unat txIndex < length (AVMLogs ni)"
    and "length (AVMLogs ni) \<le> maxInt"
  shows "\<exists>ti. getTxInfo hexEncode txHash ni txIndex = Inr ti \<and>
           length (LogsValHashes ti) =
             length (AVMLogsValHashes ni) - (unat txIndex + 1) \<and>
           (\<forall>j < length (LogsValHashes ti).
              LogsValHashes ti ! j = AVMLogsValHashes ni ! (unat txIndex + 1 + j))"
  using assms(2,3)
  by (simp add: getTxInfo_returns [OF assms(1,2,3)] unat_succ_index [OF assms(3,4)])

theorem getTxInfo_val_hashes_start_witness:
  "length (AVMLogsAccHashes demoInfo) = length (AVMLogs demoInfo) \<and>
   length (AVMLogsValHashes demoInfo) = length (AVMLogs demoInfo) \<and>
   unat (0 :: uint64) < length (AVMLogs demoInfo) \<and>
   length (AVMLogs demoInfo) \<le> maxInt \<and>
   (\<exists>ti. getTxInfo demoHex 0 demoInfo 0 = Inr ti \<and> length (LogsValHashes ti) = 2 \<and>
      LogsValHashes ti ! 0 = AVMLogsValHashes demoInfo ! 1 \<and>
      LogsValHashes ti ! 1 = AVMLogsValHashes demoInfo ! 2)"
proof -
  have acc: "length (AVMLogsAccHashes demoInfo) = length (AVMLogs demoInfo)"
    by (simp add: demoInfo_eq)
  have val: "length (AVMLogsValHashes demoInfo) = length (AVMLogs demoInfo)"
    by (simp add: demoInfo_eq)
  have idx: "unat (0 :: uint64) < length (AVMLogs demoInfo)"
    by (simp add: demoInfo_eq)
  have len: "length (AVMLogs demoInfo) \<le> maxInt"
    by (simp add: demoInfo_eq maxInt_def)
  have three: "length (AVMLogsValHashes demoInfo) = 3"
    by (simp add: demoInfo_eq)
  from getTxInfo_val_hashes_start [OF acc val idx len, of demoHex 0]
  obtain ti where ti: "getTxInfo demoHex 0 demoInfo 0 = Inr ti"
      and n: "length (LogsValHashes ti) = length (AVMLogsValHashes demoInfo) - (unat (0 :: uint64) + 1)"
      and at: "\<forall>j < length (LogsValHashes ti).
                 LogsValHashes ti ! j = AVMLogsValHashes demoInfo ! (unat (0 :: uint64) + 1 + j)"
    by blast
  from n three have n2: "length (LogsValHashes ti) = 2"
    by simp
  from at n2 have "LogsValHashes ti ! 0 = AVMLogsValHashes demoInfo ! 1"
    and "LogsValHashes ti ! 1 = AVMLogsValHashes demoInfo ! 2"
    by (simp_all add: eval_nat_numeral)
  with ti n2 acc val idx len show ?thesis by blast
qed

section \<open>Properties of FindLogs\<close>

lemma findInGroup_eq:
  "findInGroup addresses topics txLogs ls logs =
     logs @ map (\<lambda>l. \<lparr>RespLog = l, RespTxIndex = TxIndex txLogs, RespTxHash = TxHash txLogs\<rparr>)
              (filter (\<lambda>l. MatchesQuery l addresses topics) ls)"
  by (induction ls arbitrary: logs) simp_all

lemma findLoop_eq:
  "findLoop addresses topics groups logs =
     logs @ concat (map (\<lambda>txLogs.
        map (\<lambda>l. \<lparr>RespLog = l, RespTxIndex = TxIndex txLogs, RespTxHash = TxHash txLogs\<rparr>)
          (filter (\<lambda>l. MatchesQuery l addresses topics) (Logs txLogs))) groups)"
  by (induction groups arbitrary: logs) (simp_all add: findInGroup_eq)

lemma topicsMatch_iff:
  "topicsMatch ts topics \<longleftrightarrow>
     length topics \<le> length ts \<and>
     (\<forall>k < length topics. topics ! k = [] \<or> ts ! k \<in> set (topics ! k))"
proof (induction ts topics rule: topicsMatch.induct)
  case (1 ts)
  then show ?case by simp
next
  case (2 topicGroup groups)
  then show ?case by simp
next
  case (3 t ts topicGroup groups)
  have split: "(\<forall>k < Suc n. P k) \<longleftrightarrow> P 0 \<and> (\<forall>k < n. P (Suc k))" for n and P :: "nat \<Rightarrow> bool"
    by (auto simp: less_Suc_eq_0_disj)
  show ?case
    by (auto simp: "3.IH" split)
qed

text \<open>
  C9. \<open>FindLogs\<close> returns, group after group in the order of \<open>EVMLogs\<close> and within a
  group in the order of its logs, the logs that satisfy \<open>MatchesQuery\<close>, each with the
  \<open>TxIndex\<close> and \<open>TxHash\<close> of its group; nothing is dropped, merged or reordered. A log
  satisfies \<open>MatchesQuery\<close> when \<open>addresses\<close> is empty or holds its address, it has at
  least as many topics as \<open>topics\<close> has positions, and at every position the set is
  empty or holds the log's topic there.
\<close>

theorem FindLogs_matching_in_order:
  "FindLogs ni addresses topics =
     concat (map (\<lambda>txLogs.
        map (\<lambda>l. \<lparr>RespLog = l, RespTxIndex = TxIndex txLogs, RespTxHash = TxHash txLogs\<rparr>)
          (filter (\<lambda>l. MatchesQuery l addresses topics) (Logs txLogs))) (EVMLogs ni)) \<and>
   (\<forall>l. MatchesQuery l addresses topics \<longleftrightarrow>
      (addresses = [] \<or> Address l \<in> set addresses) \<and>
      length topics \<le> length (Topics l) \<and>
      (\<forall>k < length topics. topics ! k = [] \<or> Topics l ! k \<in> set (topics ! k)))"
  by (simp add: FindLogs_def findLoop_eq MatchesQuery_def topicsMatch_iff)

theorem FindLogs_matching_in_order_witness:
  "FindLogs demoInfo [7] [[5], []] =
     [\<lparr>RespLog = demoLog, RespTxIndex = 1, RespTxHash = 1\<rparr>] \<and>
   FindLogs demoInfo [] [] =
     [\<lparr>RespLog = demoLog, RespTxIndex = 1, RespTxHash = 1\<rparr>] \<and>
   FindLogs demoInfo [8] [] = [] \<and>
   FindLogs demoInfo [] [[], [], []] = []"
proof -
  note find = FindLogs_matching_in_order [of demoInfo, THEN conjunct1]
  have m1: "MatchesQuery demoLog [7] [[5], []]"
    and m2: "MatchesQuery demoLog [] []"
    and m3: "\<not> MatchesQuery demoLog [8] []"
    and m4: "\<not> MatchesQuery demoLog [] [[], [], []]"
    by (simp_all add: MatchesQuery_def demoLog_def)
  from find [of "[7]" "[[5], []]"] find [of "[]" "[]"] find [of "[8]" "[]"]
    find [of "[]" "[[], [], []]"]
  show ?thesis
    by (simp add: demoInfo_eq m1 m2 m3 m4)
qed

section \<open>Properties of Equals\<close>

lemma eqLoop_eq: "length a = length b \<Longrightarrow> eqLoop (\<lambda>t u. t = u) a b \<longleftrightarrow> a = b"
  by (induction a b rule: list_induct2) simp_all

lemma logsInfoEquals_iff: "logsInfoEquals a b \<longleftrightarrow> a = b"
  by (cases a; cases b) (auto simp: logsInfoEquals_def eqLoop_eq)

lemma eqLoop_logsInfo: "length a = length b \<Longrightarrow> eqLoop logsInfoEquals a b \<longleftrightarrow> a = b"
  by (induction a b rule: list_induct2) (simp_all add: logsInfoEquals_iff)

text \<open>
  What \<open>Equals\<close> decides when \<open>value.Eq\<close> is equality: that the two node infos agree on
  every field but \<open>L1TxHash\<close>.
\<close>

lemma Equals_iff:
  "Equals (\<lambda>t u. t = u) ni o' \<longleftrightarrow>
     EVMLogs ni = EVMLogs o' \<and> EVMTransactionHashes ni = EVMTransactionHashes o' \<and>
     AVMLogs ni = AVMLogs o' \<and> AVMMessages ni = AVMMessages o' \<and>
     AVMLogsAccHashes ni = AVMLogsAccHashes o' \<and>
     AVMLogsValHashes ni = AVMLogsValHashes o' \<and>
     NodeHash ni = NodeHash o' \<and> NodeHeight ni = NodeHeight o'"
  by (auto simp: Equals_def logSlicesEqual_def hashSlicesEqual_def valueSlicesEqual_def
      stringSlicesEqual_def eqLoop_eq eqLoop_logsInfo)

lemma demoInfo2_eq: "demoInfo2 = demoInfo\<lparr>L1TxHash := 13\<rparr>"
  by (simp add: demoInfo2_def demoNode2_def demoInfo_eq processNode_def newNodeInfo_def
      demoNode_def Let_def demoProcessLog_def demoValueHash_def demoSHA3_def demoHex_def)

text \<open>
  C2. Section 4.6 of the specification says that \<open>Equals\<close> is true exactly when all
  fields of section 3, \<open>L1TxHash\<close> among them, are equal. \<open>Equals\<close> does not compare \<open>L1TxHash\<close>: the node infos of two nodes
  that differ in the assertion transaction hash only are equal for it.
\<close>

theorem Equals_ignores_L1TxHash:
  "Equals (\<lambda>t u. t = u) demoInfo demoInfo2 \<and>
   L1TxHash demoInfo = 12 \<and> L1TxHash demoInfo2 = 13 \<and> demoInfo \<noteq> demoInfo2"
  by (simp add: Equals_iff demoInfo2_eq) (simp add: demoInfo_eq)

section \<open>Properties of calculateBloomFilter\<close>

lemma bloomGroup_eq:
  "bloomGroup ni i g ls (ethLogs, k) =
     (ethLogs @ tagGroup ni i g ls k, k + of_nat (length ls))"
  by (induction ls arbitrary: ethLogs k)
     (simp_all add: Let_def ToEVMLog_def tagged_def ac_simps)

lemma bloomLoop_eq:
  "bloomLoop ni i gs (ethLogs, k) =
     (ethLogs @ tagGroups ni i gs k, k + of_nat (length (concat (map Logs gs))))"
  by (induction gs arbitrary: i ethLogs k) (simp_all add: bloomGroup_eq ac_simps)

lemma bloomLogs_eq: "bloomLogs ni = tagGroups ni 0 (EVMLogs ni) 0"
  by (simp add: bloomLogs_def bloomLoop_eq)

lemma Index_tagGroup:
  "map Index (tagGroup ni i g ls k) = map (\<lambda>j. k + of_nat j) [0..<length ls]"
proof (induction ls arbitrary: k)
  case Nil
  then show ?case by simp
next
  case (Cons l ls)
  have "[0..<length (l # ls)] = 0 # map Suc [0..<length ls]"
    by (simp add: upt_conv_Cons map_Suc_upt del: upt_Suc)
  then show ?case
    by (simp add: Cons.IH tagged_def comp_def add.assoc del: upt_Suc)
qed

lemma map_upt_add:
  "map f [0..<n + m] = map f [0..<n] @ map (\<lambda>j. f (n + j)) [0..<m]"
proof -
  have "[0..<n + m] = [0..<n] @ [n..<n + m]"
    by (rule upt_add_eq_append) simp
  moreover have "[n..<n + m] = map (\<lambda>j. n + j) [0..<m]"
    using map_add_upt [of n m] by (simp add: add.commute)
  ultimately show ?thesis
    by (simp add: comp_def)
qed

lemma Index_tagGroups:
  "map Index (tagGroups ni i gs k) =
     map (\<lambda>j. k + of_nat j) [0..<length (concat (map Logs gs))]"
proof (induction gs arbitrary: i k)
  case Nil
  then show ?case by simp
next
  case (Cons g gs)
  let ?n = "length (Logs g)" and ?m = "length (concat (map Logs gs))"
  have "map Index (tagGroups ni i (g # gs) k) =
      map Index (tagGroup ni i g (Logs g) k) @
      map Index (tagGroups ni (Suc i) gs (k + of_nat ?n))"
    by simp
  also have "\<dots> = map (\<lambda>j. k + of_nat j) [0..<?n] @
      map (\<lambda>j. k + of_nat ?n + of_nat j) [0..<?m]"
    by (simp only: Index_tagGroup Cons.IH)
  also have "\<dots> = map (\<lambda>j. k + of_nat j) [0..<?n + ?m]"
    by (simp only: map_upt_add [of _ ?n ?m] of_nat_add add.assoc)
  finally show ?case
    by simp
qed

text \<open>
  The log index counts the logs of all groups from 0, in the order of the groups and of
  their logs, and is not reset between groups.
\<close>

lemma bloomLogs_Index:
  "map Index (bloomLogs ni) = map of_nat [0..<length (concat (map Logs (EVMLogs ni)))]"
  by (simp add: bloomLogs_eq Index_tagGroups)

lemma tagGroup_tags:
  "map (\<lambda>e. e\<lparr>Index := 0\<rparr>) (tagGroup ni i g ls k) = map (\<lambda>l. tagged ni i g l 0) ls"
  by (induction ls arbitrary: k) (simp_all add: tagged_def)

lemma tagGroups_tags:
  "map (\<lambda>e. e\<lparr>Index := 0\<rparr>) (tagGroups ni i gs k) =
     concat (map (\<lambda>p. map (\<lambda>l. tagged ni (i + p) (gs ! p) l 0) (Logs (gs ! p)))
                 [0..<length gs])"
proof (induction gs arbitrary: i k)
  case Nil
  then show ?case by simp
next
  case (Cons g gs)
  have "[0..<length (g # gs)] = 0 # map Suc [0..<length gs]"
    by (simp add: upt_conv_Cons map_Suc_upt del: upt_Suc)
  then show ?case
    by (simp add: Cons.IH tagGroup_tags comp_def del: upt_Suc)
qed

text \<open>
  Apart from the log index, every log carries the node's hash and height, the
  transaction hash of its group and, as transaction index, the position \<open>p\<close> of its
  group in \<open>EVMLogs\<close>, not the \<open>TxIndex\<close> that the group records.
\<close>

lemma bloomLogs_tags:
  "map (\<lambda>e. e\<lparr>Index := 0\<rparr>) (bloomLogs ni) =
     concat (map (\<lambda>p. map (\<lambda>l.
        \<lparr>EthAddress = Address l, EthTopics = Topics l, EthData = Data l,
         BlockNumber = NodeHeight ni, EthTxHash = TxHash (EVMLogs ni ! p),
         EthTxIndex = of_nat p, BlockHash = NodeHash ni, Index = 0\<rparr>)
        (Logs (EVMLogs ni ! p))) [0..<length (EVMLogs ni)])"
  by (simp add: bloomLogs_eq tagGroups_tags tagged_def)

text \<open>
  C7. Section 4.4 of the specification says that every log is tagged with the
  \<open>tx_index\<close> that its group records. In the node info of the concrete node, whose first raw log does not decode, the first
  group records \<open>TxIndex\<close> 1 (the index of its raw log), and \<open>calculateBloomFilter\<close> tags its
  log with transaction index 0 (the position of the group); the node's hash and height,
  the group's transaction hash and the log index are as section 4.4 says.
\<close>

theorem calculateBloomFilter_tags_group_position:
  "bloomLogs demoInfo =
     [\<lparr>EthAddress = 7, EthTopics = [5, 6], EthData = [], BlockNumber = 4, EthTxHash = 1,
       EthTxIndex = 0, BlockHash = 11, Index = 0\<rparr>] \<and>
   EVMLogs demoInfo ! 0 = \<lparr>Logs = [demoLog], TxIndex = 1, TxHash = 1\<rparr> \<and>
   map EthTxIndex (bloomLogs demoInfo) \<noteq>
     concat (map (\<lambda>g. map (\<lambda>l. TxIndex g) (Logs g)) (EVMLogs demoInfo))"
  by (simp add: bloomLogs_def demoInfo_eq ToEVMLog_def demoLog_def)

end
